theory Spec2Isabelle
  imports Complex_Main "HOL-Library.Sublist"
begin

section \<open>Python strings\<close>

text \<open>
  A Python \<open>str\<close> is a sequence of Unicode code points, so it is modelled as a list of
  code points (\<open>nat\<close>). That also keeps the literals of \<open>research_paper_agent.py\<close>
  as the file has them: its decorations are the code points U+011F U+0178 U+201C U+0161
  and the like, none of which fits an 8-bit character.

  The character classes below are those of CPython (\<open>Py_UNICODE_ISSPACE\<close>,
  \<open>ISDECIMAL\<close>, \<open>ISDIGIT\<close>, \<open>ISALNUM\<close>, \<open>TOLOWER\<close>) on the code points
  below 256 (ASCII and Latin-1 Supplement). Code points from 256 on are classified as
  caseless symbols; a text with letters, digits or spaces from beyond Latin-1 is outside
  the model.
\<close>

type_synonym pystr = "nat list"

definition str :: "string \<Rightarrow> pystr" where
  "str cs = map of_char cs"

definition isspace_cp :: "nat \<Rightarrow> bool" where
  "isspace_cp c = ((9 \<le> c \<and> c \<le> 13) \<or> (28 \<le> c \<and> c \<le> 32) \<or> c = 133 \<or> c = 160)"

definition isdecimal_cp :: "nat \<Rightarrow> bool" where
  "isdecimal_cp c = (48 \<le> c \<and> c \<le> 57)"

text \<open>
  \<open>str.isdigit\<close> accepts more than the decimal digits: "digits include decimal
  characters and digits that need special handling, such as the compatibility superscript
  digits" (Python library reference). Below 256 those are U+00B2, U+00B3 and U+00B9.
\<close>

definition isdigit_cp :: "nat \<Rightarrow> bool" where
  "isdigit_cp c = (isdecimal_cp c \<or> c = 178 \<or> c = 179 \<or> c = 185)"

definition isalpha_cp :: "nat \<Rightarrow> bool" where
  "isalpha_cp c = ((65 \<le> c \<and> c \<le> 90) \<or> (97 \<le> c \<and> c \<le> 122) \<or> c = 170 \<or> c = 181 \<or> c = 186
     \<or> (192 \<le> c \<and> c \<le> 214) \<or> (216 \<le> c \<and> c \<le> 246) \<or> (248 \<le> c \<and> c \<le> 255))"

definition isnumeric_cp :: "nat \<Rightarrow> bool" where
  "isnumeric_cp c = (isdigit_cp c \<or> (188 \<le> c \<and> c \<le> 190))"

definition isalnum_cp :: "nat \<Rightarrow> bool" where
  "isalnum_cp c = (isalpha_cp c \<or> isdecimal_cp c \<or> isdigit_cp c \<or> isnumeric_cp c)"

text \<open>The class \<open>\w\<close> of \<open>re\<close> on a \<open>str\<close> pattern: alphanumeric or underscore.\<close>

definition word_cp :: "nat \<Rightarrow> bool" where
  "word_cp c = (isalnum_cp c \<or> c = 95)"

definition lower_cp :: "nat \<Rightarrow> nat" where
  "lower_cp c = (if (65 \<le> c \<and> c \<le> 90) \<or> (192 \<le> c \<and> c \<le> 214) \<or> (216 \<le> c \<and> c \<le> 222)
                 then c + 32 else c)"

definition lower :: "pystr \<Rightarrow> pystr" where
  "lower s = map lower_cp s"

text \<open>\<open>s.isdigit()\<close>: every character is a digit and there is at least one.\<close>

definition isdigit :: "pystr \<Rightarrow> bool" where
  "isdigit s = (s \<noteq> [] \<and> list_all isdigit_cp s)"

text \<open>\<open>s.strip()\<close>: leading and trailing whitespace removed.\<close>

definition strip :: "pystr \<Rightarrow> pystr" where
  "strip s = rev (dropWhile isspace_cp (rev (dropWhile isspace_cp s)))"

text \<open>\<open>sub in s\<close> on strings.\<close>

fun contains :: "pystr \<Rightarrow> pystr \<Rightarrow> bool" where
  "contains sub [] = (sub = [])"
| "contains sub (c # cs) = (prefix sub (c # cs) \<or> contains sub cs)"

text \<open>\<open>sep.join(xs)\<close>.\<close>

fun join :: "pystr \<Rightarrow> pystr list \<Rightarrow> pystr" where
  "join sep [] = []"
| "join sep [x] = x"
| "join sep (x # y # ys) = x @ sep @ join sep (y # ys)"

text \<open>\<open>s.split()\<close> without argument: the maximal runs of non-whitespace.\<close>

fun split_ws :: "pystr \<Rightarrow> pystr \<Rightarrow> pystr list" where
  "split_ws cur [] = (if cur = [] then [] else [cur])"
| "split_ws cur (c # cs) =
     (if isspace_cp c then (if cur = [] then split_ws [] cs else cur # split_ws [] cs)
      else split_ws (cur @ [c]) cs)"

text \<open>
  \<open>s.split(sep)\<close> for a non-empty separator: the pieces between the occurrences of
  \<open>sep\<close>, found from the left without overlap. (Python raises \<open>ValueError\<close> on an
  empty separator; the agent passes two literals only.)
\<close>

function split_on :: "pystr \<Rightarrow> pystr \<Rightarrow> pystr \<Rightarrow> pystr list" where
  "split_on sep cur s =
     (if s = [] then [cur]
      else if sep \<noteq> [] \<and> prefix sep s then cur # split_on sep [] (drop (length sep) s)
      else split_on sep (cur @ [hd s]) (tl s))"
  by pat_completeness auto
termination
  by (relation "measure (\<lambda>(sep, cur, s). length s)") auto

text \<open>\<open>str(n)\<close> for a non-negative integer.\<close>

fun str_nat :: "nat \<Rightarrow> pystr" where
  "str_nat n = (if n < 10 then [48 + n] else str_nat (n div 10) @ [48 + n mod 10])"

text \<open>
  \<open>repr(s)\<close> of a string, which \<open>str(dict)\<close> applies to keys and values: double
  quotes when the string has a single quote and no double quote, single quotes
  otherwise; the quote and the backslash escaped; tab, newline and carriage return as
  \<open>\t\<close>, \<open>\n\<close>, \<open>\r\<close>; the other non-printable code points below 256 as \<open>\xhh\<close>.
\<close>

definition hex_digit :: "nat \<Rightarrow> nat" where
  "hex_digit d = (if d < 10 then 48 + d else 87 + d)"

definition repr_cp :: "nat \<Rightarrow> nat \<Rightarrow> pystr" where
  "repr_cp quote c =
     (if c = quote \<or> c = 92 then [92, c]
      else if c = 9 then [92, 116]
      else if c = 10 then [92, 110]
      else if c = 13 then [92, 114]
      else if c < 32 \<or> (127 \<le> c \<and> c \<le> 160) \<or> c = 173
        then [92, 120, hex_digit (c div 16), hex_digit (c mod 16)]
      else [c])"

definition repr :: "pystr \<Rightarrow> pystr" where
  "repr s = (let quote = (if 39 \<in> set s \<and> 34 \<notin> set s then 34 else 39)
             in [quote] @ concat (map (repr_cp quote) s) @ [quote])"

section \<open>Dictionaries\<close>

text \<open>
  A \<open>dict\<close> keeps its keys in insertion order, and \<open>str(dict)\<close> shows that order, so
  the identifier cache is an association list. \<open>d[k] = v\<close> replaces the value of a key
  that is present, in place, and appends a new key at the end.
\<close>

type_synonym pydict = "(pystr \<times> pystr) list"

fun dict_set :: "pydict \<Rightarrow> pystr \<Rightarrow> pystr \<Rightarrow> pydict" where
  "dict_set [] k v = [(k, v)]"
| "dict_set ((k', v') # d) k v = (if k' = k then (k, v) # d else (k', v') # dict_set d k v)"

fun dict_get :: "pydict \<Rightarrow> pystr \<Rightarrow> pystr option" where
  "dict_get [] k = None"
| "dict_get ((k', v') # d) k = (if k' = k then Some v' else dict_get d k)"

definition str_dict :: "pydict \<Rightarrow> pystr" where
  "str_dict d = [123] @ join (str '', '') (map (\<lambda>(k, v). repr k @ str '': '' @ repr v) d) @ [125]"

section \<open>Regular expressions\<close>

text \<open>
  The patterns of the program are sequences of literals, word boundaries and
  repetitions of one character class, some of them captured. \<open>rmatch\<close> is the
  backtracking matcher of \<open>re\<close> on such a sequence: a repetition is greedy, it tries
  the longest run first and gives characters back one at a time. The matcher gets the
  character before the position (for \<open>\b\<close>) and returns the captured groups and the
  number of characters the match consumed.
\<close>

datatype item =
    Lit pystr
  | WordB
  | Rep "nat \<Rightarrow> bool" nat "nat option"
  | Grp "nat \<Rightarrow> bool" nat "nat option"

fun first_some :: "'a option list \<Rightarrow> 'a option" where
  "first_some [] = None"
| "first_some (None # xs) = first_some xs"
| "first_some (Some x # xs) = Some x"

definition at_boundary :: "nat option \<Rightarrow> pystr \<Rightarrow> bool" where
  "at_boundary prev s =
     ((case prev of None \<Rightarrow> False | Some c \<Rightarrow> word_cp c)
        \<noteq> (case s of [] \<Rightarrow> False | c # _ \<Rightarrow> word_cp c))"

definition prev_after :: "nat option \<Rightarrow> pystr \<Rightarrow> nat option" where
  "prev_after prev consumed = (if consumed = [] then prev else Some (last consumed))"

definition rep_counts :: "(nat \<Rightarrow> bool) \<Rightarrow> nat \<Rightarrow> nat option \<Rightarrow> pystr \<Rightarrow> nat list" where
  "rep_counts cls lo hi s =
     (let avail = length (takeWhile cls s);
          top = (case hi of None \<Rightarrow> avail | Some h \<Rightarrow> min h avail)
      in rev [lo ..< Suc top])"

fun rmatch :: "item list \<Rightarrow> nat option \<Rightarrow> pystr \<Rightarrow> (pystr list \<times> nat) option" where
  "rmatch [] prev s = Some ([], 0)"
| "rmatch (Lit l # its) prev s =
     (if prefix l s
      then map_option (\<lambda>(g, n). (g, length l + n))
             (rmatch its (prev_after prev l) (drop (length l) s))
      else None)"
| "rmatch (WordB # its) prev s = (if at_boundary prev s then rmatch its prev s else None)"
| "rmatch (Rep cls lo hi # its) prev s =
     first_some (map (\<lambda>k. map_option (\<lambda>(g, n). (g, k + n))
                             (rmatch its (prev_after prev (take k s)) (drop k s)))
                     (rep_counts cls lo hi s))"
| "rmatch (Grp cls lo hi # its) prev s =
     first_some (map (\<lambda>k. map_option (\<lambda>(g, n). (take k s # g, k + n))
                             (rmatch its (prev_after prev (take k s)) (drop k s)))
                     (rep_counts cls lo hi s))"

text \<open>\<open>re.search\<close>: the match at the leftmost position that has one; its groups.\<close>

fun search_from :: "item list \<Rightarrow> nat option \<Rightarrow> pystr \<Rightarrow> pystr list option" where
  "search_from p prev [] = map_option fst (rmatch p prev [])"
| "search_from p prev (c # cs) =
     (case rmatch p prev (c # cs) of
        Some (g, n) \<Rightarrow> Some g
      | None \<Rightarrow> search_from p (Some c) cs)"

definition re_search :: "item list \<Rightarrow> pystr \<Rightarrow> pystr list option" where
  "re_search p s = search_from p None s"

text \<open>
  \<open>re.findall\<close> for a pattern with at most one group: the matches from left to right
  without overlap, each given by its group (by the whole match when the pattern has no
  group). The next search starts where the match ended. A match that consumes nothing
  moves on by one character; the pattern the agent passes needs seven characters.
\<close>

function findall_from :: "item list \<Rightarrow> nat option \<Rightarrow> pystr \<Rightarrow> pystr list" where
  "findall_from p prev s =
     (case rmatch p prev s of
        Some (g, n) \<Rightarrow>
          (case g of [] \<Rightarrow> take n s | x # _ \<Rightarrow> x) #
          (case s of
             [] \<Rightarrow> []
           | c # cs \<Rightarrow>
               if n = 0 then findall_from p (Some c) cs
               else findall_from p (prev_after prev (take n s)) (drop n s))
      | None \<Rightarrow> (case s of [] \<Rightarrow> [] | c # cs \<Rightarrow> findall_from p (Some c) cs))"
  by pat_completeness auto
termination
  by (relation "measure (\<lambda>(p, prev, s). length s)") auto

definition re_findall :: "item list \<Rightarrow> pystr \<Rightarrow> pystr list" where
  "re_findall p s = findall_from p None s"

text \<open>\<open>r"\b(\d{7,9})\b"\<close>\<close>

definition id_pattern :: "item list" where
  "id_pattern = [WordB, Grp isdecimal_cp 7 (Some 9), WordB]"

text \<open>\<open>r'Tool:\s*(\w+)\("([^"]+)"\)'\<close> (34 is the double quote, 40 and 41 the parentheses)\<close>

definition tool_pattern :: "item list" where
  "tool_pattern = [Lit (str ''Tool:''), Rep isspace_cp 0 None, Grp word_cp 1 None,
                   Lit [40, 34], Grp (\<lambda>c. c \<noteq> 34) 1 None, Lit [34, 41]]"

section \<open>Author-name cleaning\<close>

text \<open>
  Lines 27 to 31 of \<open>search_papers_by_author\<close>: the name is stripped, then the list of
  titles is walked once, in order; a title followed by a space at the start of the
  current name is cut off and the rest stripped again.
\<close>

definition titles :: "pystr list" where
  "titles = map str [''Dr.'', ''Dr'', ''Prof.'', ''Prof'', ''Professor'', ''Mr.'', ''Ms.'', ''Mrs.'']"

fun strip_titles :: "pystr list \<Rightarrow> pystr \<Rightarrow> pystr" where
  "strip_titles [] cleaned_name = cleaned_name"
| "strip_titles (title # rest) cleaned_name =
     strip_titles rest
       (if prefix (title @ str '' '') cleaned_name
        then strip (drop (length title) cleaned_name)
        else cleaned_name)"

definition cleaned_name :: "pystr \<Rightarrow> pystr" where
  "cleaned_name author_name = strip_titles titles (strip author_name)"

section \<open>The external services\<close>

text \<open>
  The program talks to three services: the index (\<open>esearch.fcgi\<close>), the record
  source (\<open>efetch.fcgi\<close>) and the language model. Every call is logged as a
  \<open>request\<close>, in the order issued; the answer of a service may depend on the calls
  made so far. \<open>print\<close> output is not modelled.
\<close>

datatype request =
    ESearch pystr nat
  | EFetch pystr
  | LLM pystr

text \<open>
  What \<open>requests.get\<close> gives: it raises (with the text of the exception), or returns a
  response of which \<open>raise_for_status()\<close> raises or not, and whose body parses or raises.
\<close>

datatype 'a http =
    Raises pystr
  | Response "pystr option" "pystr + 'a"

text \<open>\<open>get\<close>, \<open>raise_for_status()\<close> and parsing; and the same without the status check.\<close>

fun get_checked :: "'a http \<Rightarrow> pystr + 'a" where
  "get_checked (Raises e) = Inl e"
| "get_checked (Response (Some e) body) = Inl e"
| "get_checked (Response None body) = body"

fun get_parsed :: "'a http \<Rightarrow> pystr + 'a" where
  "get_parsed (Raises e) = Inl e"
| "get_parsed (Response status body) = body"

text \<open>The JSON of the index: \<open>esearchresult.count\<close> and \<open>esearchresult.idlist\<close>, each may be absent.\<close>

record esearch_json =
  js_count :: "pystr option"
  js_idlist :: "pystr list option"

definition get_count :: "esearch_json \<Rightarrow> pystr" where
  "get_count data = (case js_count data of None \<Rightarrow> str ''0'' | Some c \<Rightarrow> c)"

definition get_idlist :: "esearch_json \<Rightarrow> pystr list" where
  "get_idlist data = (case js_idlist data of None \<Rightarrow> [] | Some l \<Rightarrow> l)"

text \<open>
  The \<open>PubmedArticle\<close> element as \<open>get_paper_details\<close> reads it. An element that is
  absent is \<open>None\<close>; \<open>findtext\<close> gives the empty string for an element without text.
  Abstract segments carry their \<open>Label\<close> attribute and text, authors their \<open>LastName\<close>
  and \<open>ForeName\<close>, article ids their \<open>IdType\<close> attribute and text.
\<close>

record article =
  art_title :: "pystr option"
  art_abstract :: "(pystr option \<times> pystr option) list"
  art_authors :: "(pystr option \<times> pystr option) list"
  art_journal :: "pystr option"
  art_year :: "pystr option"
  art_ids :: "(pystr option \<times> pystr option) list"

text \<open>
  The record source answers with the article that \<open>root.find(".//PubmedArticle")\<close>
  yields and \<open>if not article\<close> lets through; \<open>None\<close> when there is none.
\<close>

record world =
  esearch :: "request list \<Rightarrow> pystr \<Rightarrow> nat \<Rightarrow> esearch_json http"
  efetch :: "request list \<Rightarrow> pystr \<Rightarrow> article option http"
  llm :: "request list \<Rightarrow> pystr \<Rightarrow> pystr + pystr"

section \<open>The tools\<close>

definition or_default :: "pystr option \<Rightarrow> pystr \<Rightarrow> pystr" where
  "or_default x d = (case x of None \<Rightarrow> d | Some t \<Rightarrow> t)"

definition abstract_of :: "article \<Rightarrow> pystr" where
  "abstract_of a =
     (if art_abstract a \<noteq> []
      then join (str '' '')
             (map (\<lambda>(label, text).
                     let label = or_default label []; content = or_default text []
                     in if label \<noteq> [] then label @ str '': '' @ content else content)
                  (art_abstract a))
      else str ''No abstract available'')"

definition authors_of :: "article \<Rightarrow> pystr list" where
  "authors_of a =
     map (\<lambda>(last_name, fore_name). strip (or_default fore_name [] @ str '' '' @ or_default last_name []))
       (filter (\<lambda>(last_name, fore_name). or_default last_name [] \<noteq> [] \<or> or_default fore_name [] \<noteq> [])
          (art_authors a))"

fun doi_of :: "(pystr option \<times> pystr option) list \<Rightarrow> pystr option" where
  "doi_of [] = None"
| "doi_of ((id_type, text) # rest) = (if id_type = Some (str ''doi'') then text else doi_of rest)"

definition paper_card :: "pystr \<Rightarrow> article \<Rightarrow> pystr" where
  "paper_card paper_id a =
     [10] @ str ''PAPER DETAILS:'' @ [10] @ str ''=============='' @ [10] @ str ''Paper ID: '' @ paper_id
     @ [10] @ str ''Title: '' @ or_default (art_title a) (str ''No title'')
     @ [10] @ str ''Authors: ''
     @ (if authors_of a \<noteq> [] then join (str '', '') (authors_of a) else str ''No authors listed'')
     @ [10] @ str ''Journal: '' @ or_default (art_journal a) (str ''Unknown journal'')
     @ str '' ('' @ or_default (art_year a) (str ''Unknown year'')
     @ str '')'' @ [10] @ str ''DOI: ''
     @ (case doi_of (art_ids a) of
          None \<Rightarrow> str ''Not available''
        | Some d \<Rightarrow> if d = [] then str ''Not available'' else d)
     @ [10, 10] @ str ''ABSTRACT:'' @ [10] @ abstract_of a @ [10]"

definition get_paper_details :: "world \<Rightarrow> pystr \<Rightarrow> request list \<Rightarrow> pystr \<times> request list" where
  "get_paper_details w paper_id io =
     (if \<not> isdigit paper_id
      then (str ''Invalid paper ID: '' @ paper_id @ str ''. Paper IDs must be numeric.'', io)
      else
        (case get_checked (efetch w io paper_id) of
           Inl e \<Rightarrow> (str ''Error fetching paper details: '' @ e, io @ [EFetch paper_id])
         | Inr None \<Rightarrow> (str ''No article found for ID '' @ paper_id, io @ [EFetch paper_id])
         | Inr (Some a) \<Rightarrow> (paper_card paper_id a, io @ [EFetch paper_id])))"

definition found_by :: "pystr \<Rightarrow> pystr \<Rightarrow> pystr list \<Rightarrow> pystr" where
  "found_by count name id_list =
     str ''Found '' @ count @ str '' papers by '' @ name @ str ''. Paper IDs: ''
     @ join (str '', '') (take 10 id_list)"

definition found_by_last_name :: "pystr \<Rightarrow> pystr \<Rightarrow> pystr list \<Rightarrow> pystr" where
  "found_by_last_name count last_name id_list =
     str ''Found '' @ count @ str '' papers by authors with last name '' @ [39] @ last_name @ [39]
     @ str ''. Paper IDs: '' @ join (str '', '') (take 10 id_list)"

definition search_papers_by_author :: "world \<Rightarrow> pystr \<Rightarrow> request list \<Rightarrow> pystr \<times> request list" where
  "search_papers_by_author w author_name io =
     (let name = cleaned_name author_name;
          q1 = ESearch (name @ str ''[Author]'') 20
      in case get_checked (esearch w io (name @ str ''[Author]'') 20) of
           Inl e \<Rightarrow> (str ''Error searching papers: '' @ e, io @ [q1])
         | Inr data \<Rightarrow>
             if get_count data = str ''0''
             then
               (let last_name = (case split_ws [] name of [] \<Rightarrow> name | x # xs \<Rightarrow> last (x # xs));
                    q2 = ESearch (last_name @ str ''[Author]'') 20
                in case get_parsed (esearch w (io @ [q1]) (last_name @ str ''[Author]'') 20) of
                     Inl e \<Rightarrow> (str ''Error searching papers: '' @ e, io @ [q1, q2])
                   | Inr data2 \<Rightarrow>
                       if get_count data2 \<noteq> str ''0''
                       then (found_by_last_name (get_count data2) last_name (get_idlist data2),
                             io @ [q1, q2])
                       else (found_by (get_count data2) name (get_idlist data2), io @ [q1, q2]))
             else (found_by (get_count data) name (get_idlist data), io @ [q1]))"

definition search_paper_by_title :: "world \<Rightarrow> pystr \<Rightarrow> request list \<Rightarrow> pystr \<times> request list" where
  "search_paper_by_title w title io =
     (let q1 = ESearch ([34] @ title @ [34] @ str ''[Title]'') 5
      in case get_checked (esearch w io ([34] @ title @ [34] @ str ''[Title]'') 5) of
           Inl e \<Rightarrow> (str ''Error searching paper by title: '' @ e, io @ [q1])
         | Inr data \<Rightarrow>
             (case get_idlist data of
                first # rest \<Rightarrow> get_paper_details w first (io @ [q1])
              | [] \<Rightarrow>
                  (let q2 = ESearch (title @ str ''[Title]'') 5
                   in case get_parsed (esearch w (io @ [q1]) (title @ str ''[Title]'') 5) of
                        Inl e \<Rightarrow> (str ''Error searching paper by title: '' @ e, io @ [q1, q2])
                      | Inr data2 \<Rightarrow>
                          (case get_idlist data2 of
                             first # rest \<Rightarrow> get_paper_details w first (io @ [q1, q2])
                           | [] \<Rightarrow>
                               (str ''No papers found with this title. Try searching by author or use a shorter title.'',
                                io @ [q1, q2])))))"

section \<open>The agent\<close>

text \<open>\<open>SimpleResearchAgent\<close>: the conversation history and the cache of paper ids.\<close>

record agent =
  conversation_history :: "pystr list"
  paper_id_cache :: pydict

definition new_agent :: agent where
  "new_agent = \<lparr>conversation_history = [], paper_id_cache = []\<rparr>"

definition tools :: "pystr list" where
  "tools = [str ''search_papers_by_author'', str ''get_paper_details'', str ''search_paper_by_title'']"

definition parse_tool_call :: "pystr \<Rightarrow> (pystr \<times> pystr) option" where
  "parse_tool_call llm_output =
     (case re_search tool_pattern llm_output of
        Some (tool_name # argument # _) \<Rightarrow> Some (tool_name, argument)
      | _ \<Rightarrow> None)"

definition execute_tool :: "world \<Rightarrow> pystr \<Rightarrow> pystr \<Rightarrow> request list \<Rightarrow> pystr \<times> request list" where
  "execute_tool w tool_name argument io =
     (if tool_name \<in> set tools \<and> contains (str ''author'') tool_name
        then search_papers_by_author w argument io
      else if tool_name \<in> set tools \<and> tool_name = str ''get_paper_details''
        then get_paper_details w argument io
      else if tool_name \<in> set tools \<and> tool_name = str ''search_paper_by_title''
        then search_paper_by_title w argument io
      else (str ''Unknown tool: '' @ tool_name, io))"

definition format_response :: "pystr \<Rightarrow> pystr" where
  "format_response tool_result =
     (if contains (str ''PAPER DETAILS:'') tool_result then tool_result
      else if contains (str ''Found'') tool_result \<and> contains (str ''papers by'') tool_result
        then [287, 376, 8220, 353] @ str '' '' @ tool_result @ [10, 10]
             @ str ''Would you like me to show details for any of these papers?''
      else tool_result)"

text \<open>The loop of \<open>format_multiple_papers\<close> over \<open>enumerate(papers[1:], 1)\<close>; \<open>n\<close> is \<open>len(papers)\<close>.\<close>

fun paper_blocks :: "nat \<Rightarrow> nat \<Rightarrow> pystr list \<Rightarrow> pystr" where
  "paper_blocks i n [] = []"
| "paper_blocks i n (paper # rest) =
     [10, 287, 376, 8220, 8222] @ str '' PAPER '' @ str_nat i @ str '':'' @ [10]
     @ strip paper
     @ (if i < n - 1 then [10] @ replicate 50 45 @ [10] else [])
     @ paper_blocks (i + 1) n rest"

definition format_multiple_papers :: "pystr \<Rightarrow> nat \<Rightarrow> pystr" where
  "format_multiple_papers combined_results count =
     (let lines = split_on [10] [] combined_results;
          summary_line = (case filter (contains (str ''Found'')) lines of [] \<Rightarrow> [] | line # _ \<Rightarrow> line);
          papers = split_on (str ''PAPER DETAILS:'') [] combined_results
      in [287, 376, 8220, 353] @ str '' '' @ summary_line @ [10, 10]
         @ str ''Here are details for the first '' @ str_nat count @ str '' papers:'' @ [10]
         @ replicate 50 61 @ [10]
         @ paper_blocks 1 (length papers) (drop 1 papers)
         @ [10, 10, 287, 376, 8217, 161] @ str '' Need more papers or specific details? Just ask!'')"

text \<open>\<open>for i, pid in enumerate(ids[:5]): self.paper_id_cache[f"paper_{i+1}"] = pid\<close>\<close>

fun cache_ids :: "pydict \<Rightarrow> nat \<Rightarrow> pystr list \<Rightarrow> pydict" where
  "cache_ids cache i [] = cache"
| "cache_ids cache i (pid # rest) =
     cache_ids (dict_set cache (str ''paper_'' @ str_nat (i + 1)) pid) (i + 1) rest"

text \<open>\<open>for pid in paper_ids: detailed_results.append(get_paper_details.invoke(...))\<close>\<close>

fun fetch_details :: "world \<Rightarrow> pystr list \<Rightarrow> request list \<Rightarrow> pystr list \<times> request list" where
  "fetch_details w [] io = ([], io)"
| "fetch_details w (pid # rest) io =
     (case get_paper_details w pid io of
        (details, io1) \<Rightarrow> (case fetch_details w rest io1 of (others, io2) \<Rightarrow> (details # others, io2)))"

text \<open>The two shortcuts that come before the language model.\<close>

definition trigger_words :: "pystr list" where
  "trigger_words = [str ''details'', str ''paper id'', str ''tell me about'', str ''get'']"

definition id_request :: "pystr \<Rightarrow> pystr option" where
  "id_request user_input =
     (case re_search id_pattern user_input of
        Some (paper_id # _) \<Rightarrow>
          if list_ex (\<lambda>word. contains word (lower user_input)) trigger_words
          then Some paper_id else None
      | _ \<Rightarrow> None)"

definition cavity_request :: "agent \<Rightarrow> pystr \<Rightarrow> bool" where
  "cavity_request ag user_input =
     (contains (str ''cavity architecture'') (lower user_input)
      \<and> contains (str ''37635766'') (str_dict (paper_id_cache ag)))"

definition prompt_head :: pystr where
  "prompt_head =
     str ''You are a research paper assistant. Based on the user'' @ [39]
     @ str ''s request, decide which tool to use.'' @ [10, 10]
     @ str ''        Available tools:'' @ [10]
     @ str ''        - search_papers_by_author('' @ [34] @ str ''author name'' @ [34]
     @ str '') - Search for papers by an author'' @ [10]
     @ str ''        - get_paper_details('' @ [34] @ str ''paper_id'' @ [34]
     @ str '') - Get details about a specific paper (ID must be numeric)'' @ [10]
     @ str ''        - search_paper_by_title('' @ [34] @ str ''paper title'' @ [34]
     @ str '') - Search for a paper by its title  # '' @ [226, 8224] @ str '' Added this line''
     @ [10, 10] @ str ''        User request: ''"

definition prompt_mid :: pystr where
  "prompt_mid = [10, 10] @ str ''        Recent conversation:'' @ [10] @ str ''        ''"

definition prompt_tail :: pystr where
  "prompt_tail =
     [10, 10] @ str ''        Respond with EXACTLY ONE of these formats:'' @ [10]
     @ str ''        1. If searching by author: Tool: search_papers_by_author('' @ [34]
     @ str ''Author Name'' @ [34] @ str '')'' @ [10]
     @ str ''        2. If getting paper details by ID: Tool: get_paper_details('' @ [34]
     @ str ''12345678'' @ [34] @ str '')'' @ [10]
     @ str ''        3. If searching by paper title: Tool: search_paper_by_title('' @ [34]
     @ str ''Paper Title'' @ [34] @ str '')  # '' @ [226, 8224] @ str '' Added this line'' @ [10]
     @ str ''        4. If you can answer without tools: Direct: [your answer]  # '' @ [226, 8224]
     @ str '' Changed from 3 to 4'' @ [10, 10] @ str ''        Your response:''"

definition prompt_of :: "agent \<Rightarrow> pystr \<Rightarrow> pystr" where
  "prompt_of ag user_input =
     prompt_head @ user_input @ prompt_mid
     @ join [10] (drop (length (conversation_history ag) - 3) (conversation_history ag))
     @ prompt_tail"

definition clarification :: pystr where
  "clarification = str ''I couldn'' @ [39]
     @ str ''t understand your request. Please try again with a clearer query.''"

text \<open>
  Lines 289 to 314 of \<open>think_and_act\<close>, the branch \<open>if tool_name:\<close>: the tool is
  run, its result goes to the history cut to 200 characters, identifiers found in the
  result are cached, and an author search is expanded.
\<close>

definition tool_branch ::
  "world \<Rightarrow> agent \<Rightarrow> pystr \<Rightarrow> pystr \<Rightarrow> request list \<Rightarrow> (pystr + pystr) \<times> agent \<times> request list" where
  "tool_branch w ag1 tool_name argument io1 =
     (case execute_tool w tool_name argument io1 of
        (result, io2) \<Rightarrow>
          (let ag2 = ag1\<lparr>conversation_history :=
                       conversation_history ag1
                       @ [str ''Tool: '' @ tool_name @ str '', Result: ''
                          @ take 200 result @ str ''...'']\<rparr>;
               ag3 = (if contains (str ''Paper IDs:'') result
                      then ag2\<lparr>paper_id_cache :=
                             cache_ids (paper_id_cache ag2) 0
                               (take 5 (re_findall id_pattern result))\<rparr>
                      else ag2)
           in if tool_name = str ''search_papers_by_author''
                 \<and> contains (str ''Paper IDs:'') result
              then
                (let paper_ids = take 3 (re_findall id_pattern result)
                 in case fetch_details w paper_ids io2 of
                      (details, io3) \<Rightarrow>
                        (Inr (format_multiple_papers
                                (join [10, 10] (result # details))
                                (length paper_ids)),
                         ag3, io3))
              else (Inr (format_response result), ag3, io2)))"

text \<open>
  \<open>think_and_act\<close>: one turn. The result is the reply (\<open>Inr\<close>), or the exception that
  \<open>self.llm.invoke\<close> raised and nothing catches (\<open>Inl\<close>); with it the agent after the
  turn and the log of requests.
\<close>

definition think_and_act ::
  "world \<Rightarrow> agent \<Rightarrow> pystr \<Rightarrow> request list \<Rightarrow> (pystr + pystr) \<times> agent \<times> request list" where
  "think_and_act w ag user_input io =
     (let ag1 = ag\<lparr>conversation_history := conversation_history ag @ [str ''User: '' @ user_input]\<rparr>
      in case id_request user_input of
           Some paper_id \<Rightarrow>
             (case get_paper_details w paper_id io of
                (result, io1) \<Rightarrow>
                  (Inr (format_response result),
                   ag1\<lparr>conversation_history := conversation_history ag1 @ [str ''Tool Result: '' @ result]\<rparr>,
                   io1))
         | None \<Rightarrow>
             if cavity_request ag1 user_input
             then
               (case get_paper_details w (str ''37635766'') io of
                  (result, io1) \<Rightarrow>
                    (Inr (format_response result),
                     ag1\<lparr>conversation_history := conversation_history ag1 @ [str ''Tool Result: '' @ result]\<rparr>,
                     io1))
             else
               (case llm w io (prompt_of ag1 user_input) of
                  Inl e \<Rightarrow> (Inl e, ag1, io @ [LLM (prompt_of ag1 user_input)])
                | Inr llm_output \<Rightarrow>
                    (let io1 = io @ [LLM (prompt_of ag1 user_input)]
                     in if prefix (str ''Direct:'') llm_output
                        then (Inr (strip (drop 7 llm_output)), ag1, io1)
                        else
                          (case parse_tool_call llm_output of
                             None \<Rightarrow> (Inr clarification, ag1, io1)
                           | Some (tool_name, argument) \<Rightarrow>
                               if tool_name = [] then (Inr clarification, ag1, io1)
                               else tool_branch w ag1 tool_name argument io1))))"

section \<open>Pagination\<close>

text \<open>
  \<open>display_all_author_papers\<close> of \<open>streamlit_app_v2.py\<close>, lines 526 to 551. The session
  state holds \<open>prev_papers_per_page\<close> and \<open>current_page\<close>, each set or not; the function
  updates it and computes the page count, the page shown and the slice of identifiers
  it loads. \<open>//\<close> raises \<open>ZeroDivisionError\<close> on a page size of zero (\<open>None\<close>).
\<close>

record session =
  prev_papers_per_page :: "int option"
  current_page :: "int option"

record page_view =
  total_pages :: int
  shown_page :: int
  start_idx :: int
  end_idx :: int
  current_page_ids :: "pystr list"
  session_after :: session

text \<open>\<open>xs[i:j]\<close>: a negative index counts from the end, and both are cut to the list.\<close>

definition slice :: "'a list \<Rightarrow> int \<Rightarrow> int \<Rightarrow> 'a list" where
  "slice xs i j =
     (let n = int (length xs);
          a = (if i < 0 then max 0 (i + n) else min i n);
          b = (if j < 0 then max 0 (j + n) else min j n)
      in take (nat (b - a)) (drop (nat a) xs))"

text \<open>Lines 529 to 538: a changed page size goes back to page 1; an unset page is page 1.\<close>

definition note_page_size :: "session \<Rightarrow> int \<Rightarrow> session" where
  "note_page_size st papers_per_page =
     (let st1 = (if prev_papers_per_page st = None
                 then st\<lparr>prev_papers_per_page := Some papers_per_page\<rparr> else st);
          st2 = (if prev_papers_per_page st1 \<noteq> Some papers_per_page
                 then st1\<lparr>current_page := Some 1, prev_papers_per_page := Some papers_per_page\<rparr>
                 else st1)
      in if current_page st2 = None then st2\<lparr>current_page := Some 1\<rparr> else st2)"

text \<open>Lines 541 to 544: the two range checks, in this order.\<close>

definition clamp_page :: "session \<Rightarrow> int \<Rightarrow> session" where
  "clamp_page st pages =
     (let st4 = (case current_page st of
                   Some p \<Rightarrow> if p > pages then st\<lparr>current_page := Some pages\<rparr> else st
                 | None \<Rightarrow> st)
      in case current_page st4 of
           Some p \<Rightarrow> if p < 1 then st4\<lparr>current_page := Some 1\<rparr> else st4
         | None \<Rightarrow> st4)"

definition display_all_author_papers :: "session \<Rightarrow> pystr list \<Rightarrow> int \<Rightarrow> page_view option" where
  "display_all_author_papers st paper_ids papers_per_page =
     (if papers_per_page = 0 then None
      else
        (let pages = (int (length paper_ids) + papers_per_page - 1) div papers_per_page;
             st5 = clamp_page (note_page_size st papers_per_page) pages;
             cur = (case current_page st5 of Some p \<Rightarrow> p | None \<Rightarrow> 1);
             start = (cur - 1) * papers_per_page;
             stop = min (start + papers_per_page) (int (length paper_ids))
         in Some \<lparr>total_pages = pages, shown_page = cur, start_idx = start, end_idx = stop,
                  current_page_ids = slice paper_ids start stop, session_after = st5\<rparr>))"


section \<open>Notions used in the statements\<close>

text \<open>
  A text of code points below 256. On such a text the character classes of the model are
  those of Python; statements that depend on a class are made for such texts.
\<close>

definition latin1 :: "pystr \<Rightarrow> bool" where
  "latin1 s = list_all (\<lambda>c. c < 256) s"

text \<open>What \<open>\b\<close> needs on either side of a run of word characters.\<close>

definition nonword_before :: "nat option \<Rightarrow> bool" where
  "nonword_before prev = (case prev of None \<Rightarrow> True | Some c \<Rightarrow> \<not> word_cp c)"

definition nonword_after :: "pystr \<Rightarrow> bool" where
  "nonword_after post = (case post of [] \<Rightarrow> True | c # _ \<Rightarrow> \<not> word_cp c)"

text \<open>A string of seven to nine decimal digits: what \<open>id_pattern\<close> captures.\<close>

definition id_like :: "pystr \<Rightarrow> bool" where
  "id_like d = (7 \<le> length d \<and> length d \<le> 9 \<and> list_all isdecimal_cp d)"

text \<open>The groups of a pattern, and what a captured string satisfies.\<close>

fun groups_of :: "item list \<Rightarrow> ((nat \<Rightarrow> bool) \<times> nat \<times> nat option) list" where
  "groups_of [] = []"
| "groups_of (Grp cls lo hi # its) = (cls, lo, hi) # groups_of its"
| "groups_of (Lit l # its) = groups_of its"
| "groups_of (WordB # its) = groups_of its"
| "groups_of (Rep cls lo hi # its) = groups_of its"

definition grp_ok :: "(nat \<Rightarrow> bool) \<times> nat \<times> nat option \<Rightarrow> pystr \<Rightarrow> bool" where
  "grp_ok spec x = (case spec of (cls, lo, hi) \<Rightarrow>
      lo \<le> length x \<and> (case hi of None \<Rightarrow> True | Some h \<Rightarrow> length x \<le> h) \<and> list_all cls x)"

text \<open>The number a decimal string denotes (the inverse of \<open>str_nat\<close>).\<close>

definition digits_value :: "pystr \<Rightarrow> nat" where
  "digits_value s = foldl (\<lambda>a c. 10 * a + (c - 48)) 0 s"

text \<open>The agent once the utterance is appended to its history.\<close>

definition heard :: "agent \<Rightarrow> pystr \<Rightarrow> agent" where
  "heard ag u = ag\<lparr>conversation_history := conversation_history ag @ [str ''User: '' @ u]\<rparr>"

text \<open>
  The page the paginator is asked for: the stored page, or page 1 when none is stored or
  the page size differs from the stored one.
\<close>

definition requested_page :: "session \<Rightarrow> int \<Rightarrow> int" where
  "requested_page st s =
     (if prev_papers_per_page st = None \<or> prev_papers_per_page st = Some s
      then (case current_page st of None \<Rightarrow> 1 | Some p \<Rightarrow> p) else 1)"

text \<open>The requests to the index, and the two query terms and the last answer of the title search.\<close>

definition is_search :: "request \<Rightarrow> bool" where
  "is_search r = (case r of ESearch term retmax \<Rightarrow> True | _ \<Rightarrow> False)"

definition exact_title_term :: "pystr \<Rightarrow> pystr" where
  "exact_title_term title = [34] @ title @ [34] @ str ''[Title]''"

definition partial_title_term :: "pystr \<Rightarrow> pystr" where
  "partial_title_term title = title @ str ''[Title]''"

definition not_found_by_title :: pystr where
  "not_found_by_title = str ''No papers found with this title. Try searching by author or use a shorter title.''"

section \<open>Sample services\<close>

definition sample_article :: article where
  "sample_article =
     \<lparr>art_title = Some (str ''Cavity architecture''),
      art_abstract = [(Some (str ''AIM''), Some (str ''To test.'')), (None, Some (str ''Done.''))],
      art_authors = [(Some (str ''Doe''), Some (str ''Jane''))],
      art_journal = Some (str ''J Test''), art_year = Some (str ''2023''),
      art_ids = [(Some (str ''pubmed''), Some (str ''1'')), (Some (str ''doi''), Some (str ''10.1/x''))]\<rparr>"

text \<open>
  An index that answers every query with the given count and identifiers, a record source
  that has the sample article under every identifier, and a model that always answers
  with the given text.
\<close>

definition sample_world :: "pystr \<Rightarrow> pystr list \<Rightarrow> pystr \<Rightarrow> world" where
  "sample_world count ids answer =
     \<lparr>esearch = (\<lambda>io term retmax. Response None (Inr \<lparr>js_count = Some count, js_idlist = Some ids\<rparr>)),
      efetch = (\<lambda>io paper_id. Response None (Inr (Some sample_article))),
      llm = (\<lambda>io prompt. Inr answer)\<rparr>"

definition five_ids :: "pystr list" where
  "five_ids = [str ''11111111'', str ''22222222'', str ''33333333'', str ''44444444'', str ''55555555'']"

text \<open>\<open>Tool: name("argument")\<close> as the model writes it.\<close>

definition tool_call :: "pystr \<Rightarrow> pystr \<Rightarrow> pystr" where
  "tool_call name argument = str ''Tool: '' @ name @ [40, 34] @ argument @ [34, 41]"

section \<open>Strings, pagination arithmetic and the identifier pattern\<close>

lemma contains_sublist: "contains sub s = sublist sub s"
  by (induction s) (auto simp: sublist_Cons_right)

lemma dropWhile_rev_fix: "xs = [] \<or> \<not> P (last xs) \<Longrightarrow> dropWhile P (rev xs) = rev xs"
  by (cases xs rule: rev_cases) auto

lemma last_dropWhile: "dropWhile P xs \<noteq> [] \<Longrightarrow> last (dropWhile P xs) = last xs"
  by (induction xs) (auto split: if_splits)

lemma strip_strip: "strip (strip s) = strip s"
proof -
  define a where "a = dropWhile isspace_cp s"
  define b where "b = dropWhile isspace_cp (rev a)"
  have "\<not> isspace_cp (last b)" if "b \<noteq> []"
  proof -
    from that have "a \<noteq> []" by (auto simp: b_def)
    then have "\<not> isspace_cp (hd a)" unfolding a_def by (rule hd_dropWhile)
    moreover have "last b = hd a"
      using that \<open>a \<noteq> []\<close> unfolding b_def by (simp add: last_dropWhile last_rev)
    ultimately show ?thesis by simp
  qed
  then have "dropWhile isspace_cp (rev b) = rev b" by (intro dropWhile_rev_fix) blast
  moreover have "dropWhile isspace_cp b = b" by (simp add: b_def)
  ultimately have "strip (rev b) = rev b" by (simp add: strip_def)
  moreover have "strip s = rev b" by (simp add: strip_def a_def b_def)
  ultimately show ?thesis by simp
qed

lemma length_strip: "length (strip s) \<le> length s"
  unfolding strip_def
  by (metis length_dropWhile_le length_rev order_trans)

lemma strip_titles_stripped: "strip s = s \<Longrightarrow> strip (strip_titles ts s) = strip_titles ts s"
  by (induction ts arbitrary: s) (auto simp: strip_strip)

lemma strip_cleaned_name: "strip (cleaned_name x) = cleaned_name x"
  by (simp add: cleaned_name_def strip_titles_stripped strip_strip)

lemma strip_titles_none: "\<forall>t\<in>set ts. \<not> prefix (t @ str '' '') s \<Longrightarrow> strip_titles ts s = s"
  by (induction ts arbitrary: s) auto

lemma length_strip_titles: "length (strip_titles ts s) \<le> length s"
proof (induction ts arbitrary: s)
  case Nil show ?case by simp
next
  case (Cons t ts)
  have "length (strip (drop (length t) s)) \<le> length s"
    by (rule order_trans[OF length_strip]) simp
  with Cons[of "strip (drop (length t) s)"] Cons[of s] show ?case
    by (auto intro: order_trans)
qed

lemma strip_titles_some:
  "[] \<notin> set ts \<Longrightarrow> \<exists>t\<in>set ts. prefix (t @ str '' '') s \<Longrightarrow> length (strip_titles ts s) < length s"
proof (induction ts arbitrary: s)
  case Nil then show ?case by simp
next
  case (Cons t ts)
  show ?case
  proof (cases "prefix (t @ str '' '') s")
    case True
    then have "length s > length t" by (auto simp: prefix_def str_def)
    moreover have "t \<noteq> []" using Cons.prems by auto
    ultimately have "length (drop (length t) s) < length s" by (cases t) auto
    then have "length (strip (drop (length t) s)) < length s"
      using length_strip[of "drop (length t) s"] by linarith
    then show ?thesis using True length_strip_titles[of ts "strip (drop (length t) s)"] by simp
  next
    case False
    then show ?thesis using Cons by auto
  qed
qed

lemma titles_nonempty: "[] \<notin> set titles"
  by (simp add: titles_def str_def)

lemma cleaned_idem_iff:
  "cleaned_name (cleaned_name x) = cleaned_name x \<longleftrightarrow> \<not> (\<exists>t\<in>set titles. prefix (t @ str '' '') (cleaned_name x))"
proof
  assume a: "cleaned_name (cleaned_name x) = cleaned_name x"
  show "\<not> (\<exists>t\<in>set titles. prefix (t @ str '' '') (cleaned_name x))"
  proof
    assume "\<exists>t\<in>set titles. prefix (t @ str '' '') (cleaned_name x)"
    from strip_titles_some[OF titles_nonempty this] a show False
      by (simp add: cleaned_name_def[of "cleaned_name x"] strip_cleaned_name)
  qed
next
  assume "\<not> (\<exists>t\<in>set titles. prefix (t @ str '' '') (cleaned_name x))"
  then show "cleaned_name (cleaned_name x) = cleaned_name x"
    by (simp add: cleaned_name_def[of "cleaned_name x"] strip_cleaned_name strip_titles_none)
qed

lemma honorific_jane_doe: "\<forall>P\<in>set titles. cleaned_name (P @ str '' Jane Doe'') = str ''Jane Doe''"
  by code_simp

lemma invalid_paper_id: "\<not> isdigit s \<Longrightarrow> get_paper_details w s io = (str ''Invalid paper ID: '' @ s @ str ''. Paper IDs must be numeric.'', io)"
  by (simp add: get_paper_details_def)

lemma valid_paper_id_io: "isdigit s \<Longrightarrow> snd (get_paper_details w s io) = io @ [EFetch s]"
  by (auto simp: get_paper_details_def split: sum.splits option.splits)

lemma ceil_char:
  assumes "0 < (s::int)"
  shows "n \<le> ((n + s - 1) div s) * s" and "((n + s - 1) div s - 1) * s < n"
proof -
  let ?q = "(n + s - 1) div s" and ?r = "(n + s - 1) mod s"
  have e: "?q * s + ?r = n + s - 1" by simp
  have r: "0 \<le> ?r" "?r < s" using assms by simp_all
  show "n \<le> ?q * s" using e r by linarith
  have "(?q - 1) * s = ?q * s - s" by (simp add: algebra_simps)
  then show "(?q - 1) * s < n" using e r by linarith
qed

lemma ceil_div:
  assumes "0 < (s::int)"
  shows "(n + s - 1) div s = \<lceil>real_of_int n / real_of_int s\<rceil>"
proof -
  let ?q = "(n + s - 1) div s"
  have a: "real_of_int n \<le> real_of_int (?q * s)" using ceil_char(1)[OF assms, of n] by linarith
  have b: "real_of_int ((?q - 1) * s) < real_of_int n" using ceil_char(2)[OF assms, of n] by linarith
  have s: "0 < real_of_int s" using assms by simp
  have "real_of_int n / real_of_int s \<le> real_of_int ?q"
    using a s by (simp add: pos_divide_le_eq)
  moreover have "real_of_int ?q - 1 < real_of_int n / real_of_int s"
    using b s by (simp add: pos_less_divide_eq)
  ultimately show ?thesis by (simp add: ceiling_unique)
qed

lemma total_ge1: "0 < (s::int) \<Longrightarrow> 1 \<le> n \<Longrightarrow> 1 \<le> (n + s - 1) div s"
  using pos_imp_zdiv_pos_iff[of s "n + s - 1"] by linarith

lemma slice_nth:
  "0 \<le> a \<Longrightarrow> a \<le> b \<Longrightarrow> b \<le> int (length xs) \<Longrightarrow> slice xs a b = map (\<lambda>i. xs ! i) [nat a ..< nat b]"
proof -
  assume h: "0 \<le> a" "a \<le> b" "b \<le> int (length xs)"
  then have n: "nat a \<le> nat b" "nat b \<le> length xs" by linarith+
  have "slice xs a b = take (nat (b - a)) (drop (nat a) xs)"
    using h by (simp add: slice_def Let_def min_def)
  also have "nat (b - a) = nat b - nat a" using h by linarith
  also have "take (nat b - nat a) (drop (nat a) xs) = map (\<lambda>i. xs ! i) [nat a ..< nat b]"
    using n by (auto simp: list_eq_iff_nth_eq)
  finally show ?thesis .
qed

lemma note_page_size_page:
  "current_page (note_page_size st s) = Some (requested_page st s)
   \<and> prev_papers_per_page (note_page_size st s) = Some s"
  by (cases "prev_papers_per_page st"; cases "current_page st")
     (simp_all add: note_page_size_def requested_page_def Let_def)

lemma clamp_page_page:
  "current_page st = Some p \<Longrightarrow>
   current_page (clamp_page st t) = Some (max 1 (min p t))
   \<and> prev_papers_per_page (clamp_page st t) = prev_papers_per_page st"
  by (simp add: clamp_page_def Let_def max_def min_def)

lemma pag_view:
  assumes "s \<noteq> 0"
  shows "\<exists>v. display_all_author_papers st ids s = Some v
     \<and> total_pages v = (int (length ids) + s - 1) div s
     \<and> shown_page v = max 1 (min (requested_page st s) (total_pages v))
     \<and> start_idx v = (shown_page v - 1) * s
     \<and> end_idx v = min (start_idx v + s) (int (length ids))
     \<and> current_page_ids v = slice ids (start_idx v) (end_idx v)
     \<and> current_page (session_after v) = Some (shown_page v)
     \<and> prev_papers_per_page (session_after v) = Some s"
proof -
  let ?t = "(int (length ids) + s - 1) div s"
  from note_page_size_page[of st s] clamp_page_page[of "note_page_size st s" "requested_page st s" ?t]
  have c: "current_page (clamp_page (note_page_size st s) ?t) = Some (max 1 (min (requested_page st s) ?t))"
    and p: "prev_papers_per_page (clamp_page (note_page_size st s) ?t) = Some s"
    by simp_all
  show ?thesis
    using assms by (simp add: display_all_author_papers_def Let_def c p)
qed

lemma decimal_word: "isdecimal_cp c \<Longrightarrow> word_cp c"
  by (simp add: word_cp_def isalnum_cp_def)

lemma first_some_map: "first_some (map f ks) = Some y \<Longrightarrow> \<exists>k\<in>set ks. f k = Some y"
  by (induction ks) (auto split: option.splits elim: first_some.elims)

lemma rep_counts_set:
  "k \<in> set (rep_counts cls lo hi s) \<Longrightarrow> lo \<le> k \<and> k \<le> length (takeWhile cls s) \<and> (\<forall>h. hi = Some h \<longrightarrow> k \<le> h)"
  by (auto simp: rep_counts_def Let_def split: option.splits)

lemma take_takeWhile: "k \<le> length (takeWhile P s) \<Longrightarrow> list_all P (take k s)"
proof (induction s arbitrary: k)
  case Nil then show ?case by simp
next
  case (Cons c s) then show ?case by (cases k) (auto split: if_splits)
qed

lemma length_takeWhile_app:
  "t = [] \<or> \<not> P (hd t) \<Longrightarrow> length (takeWhile P (h @ t)) \<le> length h"
proof (induction h)
  case Nil then show ?case by (cases t) auto
next
  case (Cons c h) then show ?case by auto
qed

lemma rmatch_Grp:
  "rmatch (Grp cls lo hi # its) prev s = Some (g, n) \<Longrightarrow>
   \<exists>k g' n'. lo \<le> k \<and> k \<le> length (takeWhile cls s) \<and> (\<forall>h. hi = Some h \<longrightarrow> k \<le> h)
     \<and> rmatch its (prev_after prev (take k s)) (drop k s) = Some (g', n') \<and> g = take k s # g' \<and> n = k + n'"
  by (auto dest!: first_some_map rep_counts_set)

lemma rmatch_Rep:
  "rmatch (Rep cls lo hi # its) prev s = Some (g, n) \<Longrightarrow>
   \<exists>k n'. rmatch its (prev_after prev (take k s)) (drop k s) = Some (g, n') \<and> n = k + n'"
  by (auto dest!: first_some_map)

lemma rmatch_Lit:
  "rmatch (Lit l # its) prev s = Some (g, n) \<Longrightarrow>
   prefix l s \<and> (\<exists>n'. rmatch its (prev_after prev l) (drop (length l) s) = Some (g, n') \<and> n = length l + n')"
  by (auto split: if_splits)

lemma rmatch_WordB:
  "rmatch (WordB # its) prev s = Some (g, n) \<Longrightarrow> at_boundary prev s \<and> rmatch its prev s = Some (g, n)"
  by (auto split: if_splits)

lemma rmatch_id:
  assumes "rmatch id_pattern prev s = Some (g, n)"
  shows "\<exists>d. g = [d] \<and> d = take n s \<and> n = length d \<and> 7 \<le> n \<and> n \<le> 9 \<and> list_all isdecimal_cp d"
proof -
  from assms have "rmatch [Grp isdecimal_cp 7 (Some 9), WordB] prev s = Some (g, n)"
    using rmatch_WordB[of "[Grp isdecimal_cp 7 (Some 9), WordB]" prev s g n]
    unfolding id_pattern_def by blast
  from rmatch_Grp[OF this] obtain k g' n' where k: "7 \<le> k" "k \<le> length (takeWhile isdecimal_cp s)" "k \<le> 9"
    and r: "rmatch [WordB] (prev_after prev (take k s)) (drop k s) = Some (g', n')" and g: "g = take k s # g'" "n = k + n'"
    by auto
  from r have "g' = []" "n' = 0" by (auto split: if_splits)
  moreover have "k \<le> length s" using k(2) length_takeWhile_le[of isdecimal_cp s] by linarith
  ultimately show ?thesis using k g take_takeWhile[OF k(2)] by auto
qed

lemma rmatch_id_short: "length (takeWhile isdecimal_cp s) < 7 \<Longrightarrow> rmatch id_pattern prev s = None"
  by (simp add: id_pattern_def rep_counts_def Let_def min_def)

lemma rmatch_id_token:
  assumes d: "7 \<le> length d" "length d \<le> 9" "list_all isdecimal_cp d"
    and b: "nonword_before prev" and a: "nonword_after post"
  shows "rmatch id_pattern prev (d @ post) = Some ([d], length d)"
proof -
  have dne: "d \<noteq> []" using d(1) by auto
  have hdw: "word_cp (hd d)" "word_cp (last d)"
    using d(3) dne by (auto simp: list_all_iff intro!: decimal_word)
  have tw: "takeWhile isdecimal_cp (d @ post) = d"
    using d(3) a by (cases post) (auto simp: nonword_after_def list_all_iff takeWhile_append2 decimal_word)
  have b1: "at_boundary prev (d @ post)"
    using b hdw dne by (cases d; cases prev) (auto simp: at_boundary_def nonword_before_def)
  have b2: "at_boundary (Some (last d)) post"
    using a hdw by (cases post) (auto simp: at_boundary_def nonword_after_def)
  have rc: "rep_counts isdecimal_cp 7 (Some 9) (d @ post) = length d # rev [7 ..< length d]"
    using d by (simp add: rep_counts_def tw min_def Let_def)
  show ?thesis
    unfolding id_pattern_def using b1 b2 dne by (simp add: rc prev_after_def)
qed

lemma search_from_id:
  "search_from id_pattern prev s = Some g \<Longrightarrow>
   \<exists>d. g = [d] \<and> 7 \<le> length d \<and> length d \<le> 9 \<and> list_all isdecimal_cp d \<and> sublist d s"
proof (induction s arbitrary: prev)
  case Nil
  then show ?case by (auto dest!: rmatch_id)
next
  case (Cons c cs)
  show ?case
  proof (cases "rmatch id_pattern prev (c # cs)")
    case None
    with Cons.prems have "search_from id_pattern (Some c) cs = Some g" by simp
    from Cons.IH[OF this] show ?thesis by (auto simp: sublist_Cons_right)
  next
    case (Some r)
    obtain g' n where r: "r = (g', n)" by (cases r)
    with Some Cons.prems have "g' = g" by simp
    with Some r rmatch_id[of prev "c # cs" g n] show ?thesis
      by (auto intro!: prefix_imp_sublist take_is_prefix)
  qed
qed

lemma search_from_token:
  assumes d: "7 \<le> length d" "length d \<le> 9" "list_all isdecimal_cp d"
    and a: "nonword_after post"
  shows "nonword_before (prev_after prev pre) \<Longrightarrow> \<exists>pid. search_from id_pattern prev (pre @ d @ post) = Some [pid]"
proof (induction pre arbitrary: prev)
  case Nil
  then have "rmatch id_pattern prev (d @ post) = Some ([d], length d)"
    using rmatch_id_token[OF d _ a] by (simp add: prev_after_def)
  moreover have "d @ post \<noteq> []" using d(1) by auto
  ultimately show ?case by (cases "d @ post") auto
next
  case (Cons c pre)
  show ?case
  proof (cases "rmatch id_pattern prev (c # pre @ d @ post)")
    case None
    have "nonword_before (prev_after (Some c) pre)" using Cons.prems by (auto simp: prev_after_def)
    from Cons.IH[OF this] None show ?thesis by simp
  next
    case (Some r)
    obtain g n where "r = (g, n)" by (cases r)
    with Some rmatch_id[of prev "c # pre @ d @ post" g n] show ?thesis by auto
  qed
qed

lemma search_from_skip:
  "list_all (\<lambda>c. \<not> isdecimal_cp c) pre \<Longrightarrow> s \<noteq> [] \<Longrightarrow>
   search_from id_pattern prev (pre @ s) = search_from id_pattern (prev_after prev pre) s"
proof (induction pre arbitrary: prev)
  case Nil then show ?case by (simp add: prev_after_def)
next
  case (Cons c pre)
  have "rmatch id_pattern prev (c # pre @ s) = None" using Cons.prems by (intro rmatch_id_short) simp
  moreover have "prev_after (Some c) pre = prev_after prev (c # pre)" by (simp add: prev_after_def)
  ultimately show ?case using Cons by simp
qed

lemma search_from_first_token:
  assumes d: "7 \<le> length d" "length d \<le> 9" "list_all isdecimal_cp d"
    and a: "nonword_after post" and b: "nonword_before (prev_after None pre)"
    and p: "list_all (\<lambda>c. \<not> isdecimal_cp c) pre"
  shows "re_search id_pattern (pre @ d @ post) = Some [d]"
proof -
  have ne: "d @ post \<noteq> []" using d(1) by auto
  have "rmatch id_pattern (prev_after None pre) (d @ post) = Some ([d], length d)"
    by (rule rmatch_id_token[OF d b a])
  then have "search_from id_pattern (prev_after None pre) (d @ post) = Some [d]"
    using ne by (cases "d @ post") auto
  then show ?thesis unfolding re_search_def using search_from_skip[OF p ne] by simp
qed

section \<open>Groups, matches in a text, the cache, the fetches and the turn\<close>

declare findall_from.simps [simp del]
declare str_nat.simps [simp del]
declare split_on.simps [simp del]


lemma rmatch_groups: "rmatch its prev s = Some (g, n) \<Longrightarrow> list_all2 grp_ok (groups_of its) g"
proof (induction its arbitrary: prev s g n)
  case Nil then show ?case by simp
next
  case (Cons it its)
  show ?case
  proof (cases it)
    case (Lit l)
    from rmatch_Lit[OF Cons.prems[unfolded Lit]] obtain n'
      where "rmatch its (prev_after prev l) (drop (length l) s) = Some (g, n')" by blast
    from Cons.IH[OF this] show ?thesis by (simp add: Lit)
  next
    case WordB
    from rmatch_WordB[OF Cons.prems[unfolded WordB]] have "rmatch its prev s = Some (g, n)" by blast
    from Cons.IH[OF this] show ?thesis by (simp add: WordB)
  next
    case (Rep cls lo hi)
    from rmatch_Rep[OF Cons.prems[unfolded Rep]] obtain k n'
      where "rmatch its (prev_after prev (take k s)) (drop k s) = Some (g, n')" by blast
    from Cons.IH[OF this] show ?thesis by (simp add: Rep)
  next
    case (Grp cls lo hi)
    from rmatch_Grp[OF Cons.prems[unfolded Grp]]
    obtain k g' n' where k: "lo \<le> k" "k \<le> length (takeWhile cls s)" "\<forall>h. hi = Some h \<longrightarrow> k \<le> h"
      and r: "rmatch its (prev_after prev (take k s)) (drop k s) = Some (g', n')" and g: "g = take k s # g'"
      by blast
    have "k \<le> length s" using k(2) length_takeWhile_le[of cls s] by linarith
    then have "grp_ok (cls, lo, hi) (take k s)"
      using k take_takeWhile[OF k(2)] by (auto simp: grp_ok_def split: option.splits)
    with Cons.IH[OF r] g show ?thesis by (simp add: Grp)
  qed
qed

lemma search_from_groups: "search_from p prev s = Some g \<Longrightarrow> list_all2 grp_ok (groups_of p) g"
proof (induction s arbitrary: prev)
  case Nil
  then obtain n where "rmatch p prev [] = Some (g, n)" by (cases "rmatch p prev []") auto
  then show ?case by (rule rmatch_groups)
next
  case (Cons c cs)
  show ?case
  proof (cases "rmatch p prev (c # cs)")
    case None
    with Cons.prems have "search_from p (Some c) cs = Some g" by simp
    then show ?thesis by (rule Cons.IH)
  next
    case (Some r)
    obtain g' n where r: "r = (g', n)" by (cases r)
    with Some Cons.prems have "g' = g" by simp
    with Some r have "rmatch p prev (c # cs) = Some (g, n)" by simp
    then show ?thesis by (rule rmatch_groups)
  qed
qed

lemma parse_tool_call_Some:
  assumes "parse_tool_call out = Some (name, arg)"
  shows "name \<noteq> [] \<and> list_all word_cp name \<and> arg \<noteq> [] \<and> 34 \<notin> set arg"
proof -
  from assms obtain g where g: "re_search tool_pattern out = Some g"
    by (auto simp: parse_tool_call_def split: option.splits)
  from search_from_groups[OF g[unfolded re_search_def]]
  obtain x y where "g = [x, y]" "grp_ok (word_cp, 1, None) x" "grp_ok ((\<lambda>c. c \<noteq> 34), 1, None) y"
    by (auto simp: tool_pattern_def list_all2_Cons1)
  with assms g show ?thesis
    by (auto simp: parse_tool_call_def grp_ok_def list_all_iff)
qed

lemma findall_groups:
  "groups_of p = [spec] \<Longrightarrow> x \<in> set (findall_from p prev s) \<Longrightarrow> grp_ok spec x"
proof (induction "length s" arbitrary: s prev rule: less_induct)
  case less
  note u = findall_from.simps[of p prev s]
  show ?case
  proof (cases "rmatch p prev s")
    case None
    show ?thesis
    proof (cases s)
      case Nil
      with None u less.prems(2) show ?thesis by simp
    next
      case (Cons c cs)
      with None u less.prems(2) have "x \<in> set (findall_from p (Some c) cs)" by simp
      moreover have "length cs < length s" using Cons by simp
      ultimately show ?thesis using less.hyps less.prems(1) by blast
    qed
  next
    case (Some r)
    obtain g n where r: "r = (g, n)" by (cases r)
    from rmatch_groups[of p prev s g n] Some r less.prems(1) obtain y where y: "g = [y]" "grp_ok spec y"
      by (auto simp: list_all2_Cons1)
    show ?thesis
    proof (cases s)
      case Nil
      with Some r y u less.prems(2) show ?thesis by simp
    next
      case (Cons c cs)
      show ?thesis
      proof (cases "x = y")
        case True with y show ?thesis by simp
      next
        case False
        show ?thesis
        proof (cases "n = 0")
          case True
          with Some r y u Cons less.prems(2) False have "x \<in> set (findall_from p (Some c) cs)" by simp
          moreover have "length cs < length s" using Cons by simp
          ultimately show ?thesis using less.hyps less.prems(1) by blast
        next
          case n: False
          with Some r y u Cons less.prems(2) False
          have "x \<in> set (findall_from p (prev_after prev (take n s)) (drop n s))" by simp
          moreover have "length (drop n s) < length s" using Cons n by simp
          ultimately show ?thesis using less.hyps less.prems(1) by blast
        qed
      qed
    qed
  qed
qed

lemma findall_id:
  "x \<in> set (re_findall id_pattern s) \<Longrightarrow> 7 \<le> length x \<and> length x \<le> 9 \<and> list_all isdecimal_cp x"
  using findall_groups[of id_pattern "(isdecimal_cp, 7, Some 9)" x None s]
  by (simp add: re_findall_def id_pattern_def grp_ok_def)

lemma findall_skip_none:
  "rmatch id_pattern prev (c # s) = None \<Longrightarrow> findall_from id_pattern prev (c # s) = findall_from id_pattern (Some c) s"
  by (subst findall_from.simps) simp

lemma findall_Nil: "findall_from id_pattern prev [] = []"
  by (subst findall_from.simps) (simp add: rmatch_id_short)

lemma prev_after_Cons: "prev_after prev (c # h) = prev_after (Some c) h"
  by (simp add: prev_after_def)

lemma findall_skip_short:
  "length h < 7 \<Longrightarrow> t = [] \<or> \<not> isdecimal_cp (hd t) \<Longrightarrow>
   findall_from id_pattern prev (h @ t) = findall_from id_pattern (prev_after prev h) t"
proof (induction h arbitrary: prev)
  case Nil then show ?case by (simp add: prev_after_def)
next
  case (Cons c h)
  have "length (takeWhile isdecimal_cp ((c # h) @ t)) \<le> length (c # h)"
    using length_takeWhile_app[of t isdecimal_cp "c # h"] Cons.prems(2) by blast
  then have "rmatch id_pattern prev (c # h @ t) = None"
    using Cons.prems(1) by (intro rmatch_id_short) simp
  from findall_skip_none[OF this] Cons.IH[of "Some c"] Cons.prems show ?case
    by (simp add: prev_after_Cons)
qed

lemma findall_skip_nondigits:
  "list_all (\<lambda>c. \<not> isdecimal_cp c) h \<Longrightarrow>
   findall_from id_pattern prev (h @ t) = findall_from id_pattern (prev_after prev h) t"
proof (induction h arbitrary: prev)
  case Nil then show ?case by (simp add: prev_after_def)
next
  case (Cons c h)
  have "rmatch id_pattern prev (c # h @ t) = None" using Cons.prems by (intro rmatch_id_short) simp
  from findall_skip_none[OF this] Cons.IH[of "Some c"] Cons.prems show ?case
    by (simp add: prev_after_Cons)
qed

lemma findall_token:
  assumes d: "7 \<le> length d" "length d \<le> 9" "list_all isdecimal_cp d"
    and b: "nonword_before prev" and a: "nonword_after post"
  shows "findall_from id_pattern prev (d @ post) = d # findall_from id_pattern (Some (last d)) post"
proof -
  have r: "rmatch id_pattern prev (d @ post) = Some ([d], length d)" by (rule rmatch_id_token[OF d b a])
  obtain x d' where dd: "d = x # d'" using d(1) by (cases d) auto
  from r have r': "rmatch id_pattern prev (x # d' @ post) = Some ([x # d'], Suc (length d'))"
    by (simp add: dd)
  show ?thesis
    unfolding dd by (subst findall_from.simps) (simp add: r' prev_after_def)
qed

lemma findall_join:
  "list_all id_like ids \<Longrightarrow> nonword_before prev \<Longrightarrow>
   findall_from id_pattern prev (join (str '', '') ids) = ids"
proof (induction "str '', ''" ids arbitrary: prev rule: join.induct)
  case 1
  then show ?case by (simp add: findall_Nil)
next
  case (2 x)
  then have "findall_from id_pattern prev (x @ []) = x # findall_from id_pattern (Some (last x)) []"
    by (intro findall_token) (auto simp: id_like_def nonword_after_def)
  then show ?case by (simp add: findall_Nil)
next
  case (3 x y ys)
  let ?rest = "join (str '', '') (y # ys)"
  have x: "id_like x" using 3 by simp
  have "findall_from id_pattern prev (x @ (str '', '' @ ?rest)) = x # findall_from id_pattern (Some (last x)) (str '', '' @ ?rest)"
    using x "3.prems"(2) by (intro findall_token) (auto simp: id_like_def nonword_after_def str_def word_cp_def isalnum_cp_def isalpha_cp_def isdecimal_cp_def isdigit_cp_def isnumeric_cp_def)
  also have "findall_from id_pattern (Some (last x)) (str '', '' @ ?rest) = findall_from id_pattern (prev_after (Some (last x)) (str '', '')) ?rest"
    by (rule findall_skip_nondigits) (simp add: str_def isdecimal_cp_def)
  also have "prev_after (Some (last x)) (str '', '') = Some 32" by (simp add: prev_after_def str_def)
  also have "findall_from id_pattern (Some 32) ?rest = y # ys"
    using 3 by (simp add: nonword_before_def word_cp_def isalnum_cp_def isalpha_cp_def isdecimal_cp_def isdigit_cp_def isnumeric_cp_def)
  finally show ?case by simp
qed

lemma findall_found_by:
  assumes c: "length c < 7" and n: "list_all (\<lambda>ch. \<not> isdecimal_cp ch) name" and i: "list_all id_like ids"
  shows "re_findall id_pattern (found_by c name ids) = take 10 ids"
proof -
  let ?J = "join (str '', '') (take 10 ids)"
  let ?h2 = "str '' papers by '' @ name @ str ''. Paper IDs: ''"
  have nd: "list_all (\<lambda>ch. \<not> isdecimal_cp ch) (str ''Found '')" by (simp add: str_def isdecimal_cp_def)
  have nd2: "list_all (\<lambda>ch. \<not> isdecimal_cp ch) ?h2" using n by (simp add: str_def isdecimal_cp_def)
  have f: "found_by c name ids = str ''Found '' @ (c @ (?h2 @ ?J))" by (simp add: found_by_def)
  have "re_findall id_pattern (found_by c name ids) = findall_from id_pattern (prev_after None (str ''Found '')) (c @ (?h2 @ ?J))"
    unfolding re_findall_def f by (rule findall_skip_nondigits[OF nd])
  also have "\<dots> = findall_from id_pattern (prev_after (prev_after None (str ''Found '')) c) (?h2 @ ?J)"
    by (rule findall_skip_short[OF c]) (simp add: str_def isdecimal_cp_def)
  also have "\<dots> = findall_from id_pattern (prev_after (prev_after (prev_after None (str ''Found '')) c) ?h2) ?J"
    by (rule findall_skip_nondigits[OF nd2])
  also have "prev_after (prev_after (prev_after None (str ''Found '')) c) ?h2 = Some 32"
    by (simp add: prev_after_def str_def)
  also have "findall_from id_pattern (Some 32) ?J = take 10 ids"
    by (rule findall_join) (use i in \<open>auto simp: list_all_iff nonword_before_def word_cp_def isalnum_cp_def isalpha_cp_def isdecimal_cp_def isdigit_cp_def isnumeric_cp_def dest: in_set_takeD\<close>)
  finally show ?thesis .
qed

lemma digits_value_str_nat: "digits_value (str_nat n) = n"
proof (induction n rule: str_nat.induct)
  case (1 n)
  show ?case
  proof (cases "n < 10")
    case True then show ?thesis by (subst str_nat.simps) (simp add: digits_value_def)
  next
    case False
    with 1 have "digits_value (str_nat (n div 10)) = n div 10" by simp
    then show ?thesis using False
      by (subst str_nat.simps) (simp add: digits_value_def)
  qed
qed

lemma str_nat_inj: "str_nat m = str_nat n \<Longrightarrow> m = n"
  by (metis digits_value_str_nat)

lemma dict_get_set: "dict_get (dict_set d k v) k' = (if k' = k then Some v else dict_get d k')"
  by (induction d) auto

lemma cache_ids_other:
  "\<forall>j<length ids. k \<noteq> str ''paper_'' @ str_nat (i + j + 1) \<Longrightarrow> dict_get (cache_ids c i ids) k = dict_get c k"
proof (induction ids arbitrary: c i)
  case Nil then show ?case by simp
next
  case (Cons pid rest)
  have "\<forall>j<length rest. k \<noteq> str ''paper_'' @ str_nat (i + 1 + j + 1)"
  proof (intro allI impI)
    fix j assume "j < length rest"
    then have "Suc j < length (pid # rest)" by simp
    with Cons.prems have "k \<noteq> str ''paper_'' @ str_nat (i + Suc j + 1)" by blast
    then show "k \<noteq> str ''paper_'' @ str_nat (i + 1 + j + 1)" by simp
  qed
  from Cons.IH[OF this] have "dict_get (cache_ids (dict_set c (str ''paper_'' @ str_nat (i + 1)) pid) (i + 1) rest) k
     = dict_get (dict_set c (str ''paper_'' @ str_nat (i + 1)) pid) k" .
  moreover have "k \<noteq> str ''paper_'' @ str_nat (i + 1)"
  proof -
    have "0 < length (pid # rest)" by simp
    with Cons.prems have "k \<noteq> str ''paper_'' @ str_nat (i + 0 + 1)" by blast
    then show ?thesis by simp
  qed
  ultimately show ?case by (simp add: dict_get_set)
qed

lemma cache_ids_new:
  "j < length ids \<Longrightarrow> dict_get (cache_ids c i ids) (str ''paper_'' @ str_nat (i + j + 1)) = Some (ids ! j)"
proof (induction ids arbitrary: c i j)
  case Nil then show ?case by simp
next
  case (Cons pid rest)
  show ?case
  proof (cases j)
    case 0
    have "\<forall>j'<length rest. str ''paper_'' @ str_nat (i + 1) \<noteq> str ''paper_'' @ str_nat (i + 1 + j' + 1)"
    proof (intro allI impI notI)
      fix j' assume "str ''paper_'' @ str_nat (i + 1) = str ''paper_'' @ str_nat (i + 1 + j' + 1)"
      then have "str_nat (i + 1) = str_nat (i + 1 + j' + 1)" by simp
      from str_nat_inj[OF this] show False by simp
    qed
    from cache_ids_other[OF this]
    have "dict_get (cache_ids (dict_set c (str ''paper_'' @ str_nat (i + 1)) pid) (i + 1) rest) (str ''paper_'' @ str_nat (i + 1))
          = dict_get (dict_set c (str ''paper_'' @ str_nat (i + 1)) pid) (str ''paper_'' @ str_nat (i + 1))" .
    then show ?thesis using 0 by (simp add: dict_get_set)
  next
    case (Suc j')
    with Cons.prems have "j' < length rest" by simp
    from Cons.IH[OF this, of "dict_set c (str ''paper_'' @ str_nat (i + 1)) pid" "i + 1"] Suc show ?thesis by simp
  qed
qed

lemma id_like_isdigit: "id_like d \<Longrightarrow> isdigit d"
  by (auto simp: id_like_def isdigit_def isdigit_cp_def list_all_iff)

lemma fetch_details_spec:
  "list_all isdigit pids \<Longrightarrow> fetch_details w pids io = (ds, io') \<Longrightarrow>
   io' = io @ map EFetch pids \<and> length ds = length pids
   \<and> (\<forall>i<length pids. ds ! i = fst (get_paper_details w (pids ! i) (io @ map EFetch (take i pids))))"
proof (induction pids arbitrary: io ds io')
  case Nil then show ?case by simp
next
  case (Cons p ps)
  obtain d io1 where g: "get_paper_details w p io = (d, io1)" by (cases "get_paper_details w p io")
  obtain ds' io2 where f: "fetch_details w ps io1 = (ds', io2)" by (cases "fetch_details w ps io1")
  have io1: "io1 = io @ [EFetch p]" using valid_paper_id_io[of p w io] g Cons.prems(1) by simp
  have r: "ds = d # ds'" "io' = io2" using Cons.prems(2) g f by simp_all
  from Cons.IH[OF _ f] Cons.prems(1)
  have ih: "io2 = io1 @ map EFetch ps" "length ds' = length ps"
    "\<forall>i<length ps. ds' ! i = fst (get_paper_details w (ps ! i) (io1 @ map EFetch (take i ps)))"
    by simp_all
  have "ds ! i = fst (get_paper_details w ((p # ps) ! i) (io @ map EFetch (take i (p # ps))))"
    if "i < length (p # ps)" for i
  proof (cases i)
    case 0 with r g show ?thesis by simp
  next
    case (Suc i')
    with that have "i' < length ps" by simp
    with ih(3) Suc r io1 show ?thesis by simp
  qed
  with r ih io1 show ?case by simp
qed

lemma cavity_user: "cavity_request (ag\<lparr>conversation_history := h\<rparr>) u = cavity_request ag u"
  by (simp add: cavity_request_def)

lemma taa_id:
  "id_request u = Some pid \<Longrightarrow>
   think_and_act w ag u io =
     (Inr (format_response (fst (get_paper_details w pid io))),
      ag\<lparr>conversation_history := conversation_history ag
           @ [str ''User: '' @ u, str ''Tool Result: '' @ fst (get_paper_details w pid io)]\<rparr>,
      snd (get_paper_details w pid io))"
  by (simp add: think_and_act_def Let_def split: prod.splits)

lemma taa_cavity:
  "id_request u = None \<Longrightarrow> cavity_request ag u \<Longrightarrow>
   think_and_act w ag u io =
     (Inr (format_response (fst (get_paper_details w (str ''37635766'') io))),
      ag\<lparr>conversation_history := conversation_history ag
           @ [str ''User: '' @ u, str ''Tool Result: '' @ fst (get_paper_details w (str ''37635766'') io)]\<rparr>,
      snd (get_paper_details w (str ''37635766'') io))"
  by (simp add: think_and_act_def Let_def cavity_user split: prod.splits)

lemma taa_llm_raises:
  "id_request u = None \<Longrightarrow> \<not> cavity_request ag u \<Longrightarrow> llm w io (prompt_of (heard ag u) u) = Inl e \<Longrightarrow>
   think_and_act w ag u io = (Inl e, heard ag u, io @ [LLM (prompt_of (heard ag u) u)])"
  by (simp add: think_and_act_def Let_def cavity_user heard_def)

lemma taa_direct:
  "id_request u = None \<Longrightarrow> \<not> cavity_request ag u \<Longrightarrow> llm w io (prompt_of (heard ag u) u) = Inr out \<Longrightarrow>
   prefix (str ''Direct:'') out \<Longrightarrow>
   think_and_act w ag u io = (Inr (strip (drop 7 out)), heard ag u, io @ [LLM (prompt_of (heard ag u) u)])"
  by (simp add: think_and_act_def Let_def cavity_user heard_def)

lemma tool_branch_eq:
  assumes "execute_tool w name arg io1 = (result, io2)"
  shows "tool_branch w ag1 name arg io1 =
    (let ag3 = (if contains (str ''Paper IDs:'') result
                then ag1\<lparr>conversation_history := conversation_history ag1
                      @ [str ''Tool: '' @ name @ str '', Result: '' @ take 200 result @ str ''...''],
                       paper_id_cache := cache_ids (paper_id_cache ag1) 0 (take 5 (re_findall id_pattern result))\<rparr>
                else ag1\<lparr>conversation_history := conversation_history ag1
                      @ [str ''Tool: '' @ name @ str '', Result: '' @ take 200 result @ str ''...'']\<rparr>)
     in if name = str ''search_papers_by_author'' \<and> contains (str ''Paper IDs:'') result
        then (Inr (format_multiple_papers
                     (join [10, 10] (result # fst (fetch_details w (take 3 (re_findall id_pattern result)) io2)))
                     (length (take 3 (re_findall id_pattern result)))),
              ag3, snd (fetch_details w (take 3 (re_findall id_pattern result)) io2))
        else (Inr (format_response result), ag3, io2))"
  unfolding tool_branch_def assms by (simp add: Let_def split: prod.splits)

lemma taa_tool:
  assumes "id_request u = None" "\<not> cavity_request ag u" "llm w io (prompt_of (heard ag u) u) = Inr out"
    "\<not> prefix (str ''Direct:'') out" "parse_tool_call out = Some (name, arg)"
  shows "think_and_act w ag u io = tool_branch w (heard ag u) name arg (io @ [LLM (prompt_of (heard ag u) u)])"
proof -
  have "name \<noteq> []" using parse_tool_call_Some[OF assms(5)] by simp
  then show ?thesis using assms
    by (simp add: think_and_act_def Let_def cavity_user heard_def)
qed

lemma taa_unparsed:
  assumes "id_request u = None" "\<not> cavity_request ag u" "llm w io (prompt_of (heard ag u) u) = Inr out"
    "\<not> prefix (str ''Direct:'') out" "parse_tool_call out = None"
  shows "think_and_act w ag u io = (Inr clarification, heard ag u, io @ [LLM (prompt_of (heard ag u) u)])"
  using assms by (simp add: think_and_act_def Let_def cavity_user heard_def)

section \<open>The claims\<close>

subsection \<open>C3: honorifics and idempotence of the name cleaning\<close>

text \<open>
  C3 says that every honorific \<open>P\<close> of the list is cut off \<open>"P Jane Doe"\<close>, and that
  cleaning a name twice gives the same as cleaning it once. The first half holds. The
  second does not: the list of titles is walked once, in its order, so a title that comes
  earlier in the list than the one in front of it stays; \<open>"Mr. Dr. X"\<close> is cleaned to
  \<open>"Dr. X"\<close>, and that to \<open>"X"\<close>.
\<close>

theorem cleaning_twice_differs:
  "cleaned_name (cleaned_name (str ''Mr. Dr. X'')) \<noteq> cleaned_name (str ''Mr. Dr. X'')"
  by code_simp

text \<open>
  C3 as amended: every honorific of the list is cut off \<open>"P Jane Doe"\<close>; and cleaning is
  idempotent on \<open>x\<close> exactly when the cleaned name of \<open>x\<close> does not itself begin with an
  honorific of the list followed by a space.
\<close>

theorem cleaned_name_honorifics_idempotence:
  "(\<forall>P\<in>set titles. cleaned_name (P @ str '' Jane Doe'') = str ''Jane Doe'') \<and>
   (cleaned_name (cleaned_name x) = cleaned_name x
      \<longleftrightarrow> \<not> (\<exists>t\<in>set titles. prefix (t @ str '' '') (cleaned_name x)))"
  using honorific_jane_doe cleaned_idem_iff by blast

theorem cleaned_name_honorifics_idempotence_witness:
  "str ''Prof.'' \<in> set titles
   \<and> cleaned_name (str ''Prof.'' @ str '' Jane Doe'') = str ''Jane Doe''
   \<and> cleaned_name (cleaned_name (str ''Prof. Jane Doe'')) = cleaned_name (str ''Prof. Jane Doe'')"
proof -
  have a: "str ''Prof.'' \<in> set titles" by code_simp
  have b: "\<not> (\<exists>t\<in>set titles. prefix (t @ str '' '') (cleaned_name (str ''Prof. Jane Doe'')))"
    by code_simp
  from cleaned_name_honorifics_idempotence[of "str ''Prof. Jane Doe''"] a b show ?thesis by blast
qed

subsection \<open>C7: identifiers that are not digits\<close>

text \<open>
  C7 says that every string not composed entirely of decimal digits is turned down
  without a network call. The check of the code is \<open>paper_id.isdigit()\<close>, and a
  superscript two (U+00B2) is a digit for \<open>isdigit\<close> though no decimal digit: the
  string made of it passes the check and is sent to the record source.
\<close>

theorem superscript_identifier_is_fetched:
  "\<not> list_all isdecimal_cp [178]
   \<and> get_paper_details (sample_world (str ''5'') five_ids []) [178] []
       = (paper_card [178] sample_article, [EFetch [178]])"
  by (simp add: get_paper_details_def sample_world_def isdigit_def isdigit_cp_def isdecimal_cp_def)

text \<open>
  C7 as amended, for identifiers of code points below 256, where the classes of the model
  are those of \<open>str.isdigit\<close>: a string that is empty or has a character that
  \<open>isdigit\<close> does not accept gets the message about the invalid identifier, and the log
  of requests is as before, so that no call is issued and none repeated; a non-empty
  string of characters that \<open>isdigit\<close> accepts is sent to the record source, in one
  request, also when its characters are no decimal digits.
\<close>

theorem identifier_check_below_256:
  assumes "latin1 s"
  shows "(s = [] \<or> (\<exists>c\<in>set s. \<not> isdigit_cp c) \<longrightarrow>
            get_paper_details w s io
              = (str ''Invalid paper ID: '' @ s @ str ''. Paper IDs must be numeric.'', io))
       \<and> (s \<noteq> [] \<and> (\<forall>c\<in>set s. isdigit_cp c) \<longrightarrow>
            snd (get_paper_details w s io) = io @ [EFetch s])"
proof (intro conjI impI)
  assume "s = [] \<or> (\<exists>c\<in>set s. \<not> isdigit_cp c)"
  then have "\<not> isdigit s" by (auto simp: isdigit_def list_all_iff)
  then show "get_paper_details w s io
              = (str ''Invalid paper ID: '' @ s @ str ''. Paper IDs must be numeric.'', io)"
    by (rule invalid_paper_id)
next
  assume "s \<noteq> [] \<and> (\<forall>c\<in>set s. isdigit_cp c)"
  then have "isdigit s" by (auto simp: isdigit_def list_all_iff)
  then show "snd (get_paper_details w s io) = io @ [EFetch s]"
    by (rule valid_paper_id_io)
qed

theorem identifier_check_below_256_witness:
  "latin1 (str ''12a4'') \<and> (\<exists>c\<in>set (str ''12a4''). \<not> isdigit_cp c)
   \<and> get_paper_details (sample_world (str ''5'') five_ids []) (str ''12a4'') []
       = (str ''Invalid paper ID: '' @ str ''12a4'' @ str ''. Paper IDs must be numeric.'', [])
   \<and> latin1 (str ''37635766'') \<and> str ''37635766'' \<noteq> [] \<and> list_all isdigit_cp (str ''37635766'')
   \<and> snd (get_paper_details (sample_world (str ''5'') five_ids []) (str ''37635766'') [])
       = [] @ [EFetch (str ''37635766'')]"
proof -
  have a: "latin1 (str ''12a4'')" by (simp add: latin1_def str_def)
  have b: "\<exists>c\<in>set (str ''12a4''). \<not> isdigit_cp c"
    by (simp add: str_def isdigit_cp_def isdecimal_cp_def)
  have c: "latin1 (str ''37635766'')" by (simp add: latin1_def str_def)
  have d: "str ''37635766'' \<noteq> [] \<and> (\<forall>c\<in>set (str ''37635766''). isdigit_cp c)"
    by (simp add: str_def isdigit_cp_def isdecimal_cp_def)
  from identifier_check_below_256[OF a, of "sample_world (str ''5'') five_ids []" "[]"] b
  have "get_paper_details (sample_world (str ''5'') five_ids []) (str ''12a4'') []
       = (str ''Invalid paper ID: '' @ str ''12a4'' @ str ''. Paper IDs must be numeric.'', [])"
    by blast
  moreover from identifier_check_below_256[OF c, of "sample_world (str ''5'') five_ids []" "[]"] d
  have "snd (get_paper_details (sample_world (str ''5'') five_ids []) (str ''37635766'') [])
       = [] @ [EFetch (str ''37635766'')]"
    by blast
  moreover have "str ''37635766'' \<noteq> [] \<and> list_all isdigit_cp (str ''37635766'')"
    using d by (simp add: list_all_iff)
  ultimately show ?thesis using a b c by blast
qed

subsection \<open>C8: pages\<close>

text \<open>
  C8 says that for every identifier list the current page is brought into
  \<open>[1, total_pages]\<close>. For the empty list there are no pages (\<open>total_pages = 0\<close>), the
  first check sets the page to 0 and the second sets it to 1: the page shown is 1, above
  the page count.
\<close>

theorem empty_list_page_above_count:
  "display_all_author_papers \<lparr>prev_papers_per_page = None, current_page = None\<rparr> [] 10
     = Some \<lparr>total_pages = 0, shown_page = 1, start_idx = 0, end_idx = 0, current_page_ids = [],
             session_after = \<lparr>prev_papers_per_page = Some 10, current_page = Some 1\<rparr>\<rparr>"
  by (simp add: display_all_author_papers_def note_page_size_def clamp_page_def Let_def slice_def)

text \<open>
  C8 as amended: for every identifier list of length \<open>n\<close> and every page size \<open>s > 0\<close> the
  page count is \<open>ceil(n / s)\<close>; the page shown is the requested page (page 1 after a
  change of page size) cut to at most the page count and then to at least 1, which lies
  in \<open>[1, total_pages]\<close> when the list is not empty and is page 1 of 0 when it is; and the
  identifiers loaded are those at the indices from \<open>(page - 1) * s\<close> up to, not including,
  \<open>min(page * s, n)\<close>.
\<close>

theorem pagination_page_and_slice:
  assumes "0 < s"
  shows "\<exists>v. display_all_author_papers st ids s = Some v
     \<and> total_pages v = \<lceil>real (length ids) / real_of_int s\<rceil>
     \<and> shown_page v = max 1 (min (requested_page st s) (total_pages v))
     \<and> (ids \<noteq> [] \<longrightarrow> 1 \<le> shown_page v \<and> shown_page v \<le> total_pages v)
     \<and> (ids = [] \<longrightarrow> total_pages v = 0 \<and> shown_page v = 1)
     \<and> current_page_ids v
         = map (\<lambda>i. ids ! i) [nat ((shown_page v - 1) * s) ..< nat (min (shown_page v * s) (int (length ids)))]"
proof -
  let ?n = "int (length ids)"
  have "s \<noteq> 0" using assms by simp
  from pag_view[OF this, of st ids] obtain v where v: "display_all_author_papers st ids s = Some v"
    and t: "total_pages v = (?n + s - 1) div s"
    and p: "shown_page v = max 1 (min (requested_page st s) (total_pages v))"
    and a: "start_idx v = (shown_page v - 1) * s"
    and b: "end_idx v = min (start_idx v + s) ?n"
    and c: "current_page_ids v = slice ids (start_idx v) (end_idx v)"
    by blast
  have t': "total_pages v = \<lceil>real (length ids) / real_of_int s\<rceil>"
    using ceil_div[OF assms, of ?n] t by simp
  have nonempty: "1 \<le> shown_page v \<and> shown_page v \<le> total_pages v" if "ids \<noteq> []"
  proof -
    from that have "1 \<le> ?n" by (cases ids) auto
    from total_ge1[OF assms this] t have "1 \<le> total_pages v" by simp
    with p show ?thesis by linarith
  qed
  have empty: "total_pages v = 0 \<and> shown_page v = 1" if "ids = []"
  proof -
    from that assms t have "total_pages v = 0" by simp
    with p show ?thesis by simp
  qed
  have p1: "1 \<le> shown_page v" using p by linarith
  then have a0: "0 \<le> start_idx v" using a assms by simp
  have an: "start_idx v \<le> ?n"
  proof (cases "ids = []")
    case True with empty a show ?thesis by simp
  next
    case False
    with nonempty have "shown_page v - 1 \<le> total_pages v - 1" by simp
    then have "(shown_page v - 1) * s \<le> (total_pages v - 1) * s"
      using assms by (intro mult_right_mono) simp_all
    with ceil_char(2)[OF assms, of ?n] t a show ?thesis by simp
  qed
  have b': "end_idx v = min (shown_page v * s) ?n" using a b by (simp add: algebra_simps)
  have "start_idx v \<le> end_idx v" "end_idx v \<le> ?n" using b an assms by simp_all
  from slice_nth[OF a0 this] c a b'
  have "current_page_ids v
         = map (\<lambda>i. ids ! i) [nat ((shown_page v - 1) * s) ..< nat (min (shown_page v * s) ?n)]"
    by simp
  with v t' p nonempty empty show ?thesis by blast
qed

text \<open>23 identifiers, ten to a page: three pages; page 5 becomes page 3, page 2 is 10 to 19.\<close>

theorem pagination_page_and_slice_witness:
  "(0::int) < 10
   \<and> (\<exists>v. display_all_author_papers \<lparr>prev_papers_per_page = Some 10, current_page = Some 5\<rparr>
              (replicate 23 [49]) 10 = Some v
          \<and> total_pages v = 3 \<and> shown_page v = 3
          \<and> current_page_ids v = map (\<lambda>i. replicate 23 [49] ! i) [20 ..< 23])
   \<and> (\<exists>v. display_all_author_papers \<lparr>prev_papers_per_page = Some 10, current_page = Some 2\<rparr>
              (replicate 23 [49]) 10 = Some v
          \<and> total_pages v = 3 \<and> shown_page v = 2
          \<and> current_page_ids v = map (\<lambda>i. replicate 23 [49] ! i) [10 ..< 20])"
proof -
  have h: "(0::int) < 10" by simp
  from pagination_page_and_slice[OF h, of "\<lparr>prev_papers_per_page = Some 10, current_page = Some 5\<rparr>" "replicate 23 [49]"]
  have five: "\<exists>v. display_all_author_papers \<lparr>prev_papers_per_page = Some 10, current_page = Some 5\<rparr>
              (replicate 23 [49]) 10 = Some v
          \<and> total_pages v = 3 \<and> shown_page v = 3
          \<and> current_page_ids v = map (\<lambda>i. replicate 23 [49] ! i) [20 ..< 23]"
    by (auto simp: requested_page_def)
  from pagination_page_and_slice[OF h, of "\<lparr>prev_papers_per_page = Some 10, current_page = Some 2\<rparr>" "replicate 23 [49]"]
  have two: "\<exists>v. display_all_author_papers \<lparr>prev_papers_per_page = Some 10, current_page = Some 2\<rparr>
              (replicate 23 [49]) 10 = Some v
          \<and> total_pages v = 3 \<and> shown_page v = 2
          \<and> current_page_ids v = map (\<lambda>i. replicate 23 [49] ! i) [10 ..< 20]"
    by (auto simp: requested_page_def)
  from h five two show ?thesis by blast
qed


end
